theory Spec2Isabelle
  imports Main
begin

section \<open>JavaScript values and their conversions\<close>

text \<open>
  The upstream feed answers with JSON, so the fields of a market are JSON values, or
  \<open>undefined\<close> when the property is absent. Numbers are the integers that JavaScript
  prints in plain decimal notation (magnitude below \<open>10^21\<close>); fractional numbers are
  outside the model. \<open>JObj\<close> stands for a plain object that owns no property named
  \<^verbatim>\<open>toString\<close>: converting an object that owns one to a string throws, and such
  objects are outside the model as well. The conversions below look at nothing else of an
  object.
\<close>

datatype jsval =
    JUndefined
  | JNull
  | JBool bool
  | JNum int
  | JStr string
  | JArr "jsval list"
  | JObj

text \<open>The truthiness test that \<^verbatim>\<open>||\<close>, \<^verbatim>\<open>!\<close> and \<^verbatim>\<open>?:\<close> apply.\<close>

fun truthy :: "jsval \<Rightarrow> bool" where
  "truthy JUndefined = False"
| "truthy JNull = False"
| "truthy (JBool b) = b"
| "truthy (JNum n) = (n \<noteq> 0)"
| "truthy (JStr s) = (s \<noteq> [])"
| "truthy (JArr xs) = True"
| "truthy JObj = True"

text \<open>\<^verbatim>\<open>a || b\<close>: the left operand when it is truthy, the right one otherwise.\<close>

definition js_or :: "jsval \<Rightarrow> jsval \<Rightarrow> jsval" where
  "js_or a b = (if truthy a then a else b)"

text \<open>Decimal digits of a natural number, most significant first.\<close>

function digits :: "nat \<Rightarrow> string" where
  "digits n =
     (if n < 10 then [''0123456789'' ! n]
      else digits (n div 10) @ [''0123456789'' ! (n mod 10)])"
  by pat_completeness auto
termination
  by (relation "measure (\<lambda>n. n)") auto

definition number_toString :: "int \<Rightarrow> string" where
  "number_toString i = (if i < 0 then CHR ''-'' # digits (nat (- i)) else digits (nat i))"

text \<open>
  The string that \<^verbatim>\<open>+\<close> with a string operand and a template literal produce from a
  value. An array is joined with commas, \<open>undefined\<close> and \<open>null\<close> elements giving the
  empty string; a plain object gives \<^verbatim>\<open>[object Object]\<close>.
\<close>

fun toString :: "jsval \<Rightarrow> string" and join :: "jsval list \<Rightarrow> string" where
  "toString JUndefined = ''undefined''"
| "toString JNull = ''null''"
| "toString (JBool b) = (if b then ''true'' else ''false'')"
| "toString (JNum n) = number_toString n"
| "toString (JStr s) = s"
| "toString (JArr xs) = join xs"
| "toString JObj = ''[object Object]''"
| "join [] = []"
| "join (x # xs) =
     (case x of JUndefined \<Rightarrow> [] | JNull \<Rightarrow> [] | _ \<Rightarrow> toString x)
     @ (if xs = [] then [] else CHR '','' # join xs)"

text \<open>
  \<^verbatim>\<open>toLowerCase\<close> on the ASCII letters; every other character is kept as it is, so
  the texts of the model are ASCII texts.
\<close>

definition lower_char :: "char \<Rightarrow> char" where
  "lower_char c =
     (case map_of (zip ''ABCDEFGHIJKLMNOPQRSTUVWXYZ'' ''abcdefghijklmnopqrstuvwxyz'') c of
        Some l \<Rightarrow> l
      | None \<Rightarrow> c)"

definition toLowerCase :: "string \<Rightarrow> string" where
  "toLowerCase s = map lower_char s"

text \<open>\<^verbatim>\<open>s.startsWith(p)\<close> and \<^verbatim>\<open>s.includes(k)\<close>: \<open>k\<close> occurs in \<open>s\<close> as a contiguous run.\<close>

fun startsWith :: "string \<Rightarrow> string \<Rightarrow> bool" where
  "startsWith s [] = True"
| "startsWith [] (p # ps) = False"
| "startsWith (c # cs) (p # ps) = (c = p \<and> startsWith cs ps)"

fun js_includes :: "string \<Rightarrow> string \<Rightarrow> bool" where
  "js_includes [] k = (k = [])"
| "js_includes (c # cs) k = (startsWith (c # cs) k \<or> js_includes cs k)"

text \<open>\<^verbatim>\<open>s.replace(p, r)\<close> with a string pattern: the first occurrence of \<open>p\<close> becomes \<open>r\<close>.\<close>

fun replace :: "string \<Rightarrow> string \<Rightarrow> string \<Rightarrow> string" where
  "replace [] p r = (if p = [] then r else [])"
| "replace (c # cs) p r =
     (if startsWith (c # cs) p then r @ drop (length p) (c # cs) else c # replace cs p r)"

section \<open>Markets and categories\<close>

text \<open>
  One element of the array the feed returns. The program reads \<open>id\<close> (here
  \<open>market_id\<close>), \<open>question\<close>, \<open>group\<close>, \<open>tags\<close> and \<open>slug\<close>; every other property of the object (\<open>title\<close> among
  them) is kept in \<open>rest\<close>. The identifier is opaque: equality on \<open>'id\<close> is the
  equality that the \<^verbatim>\<open>Set\<close> of seen markets uses.
\<close>

record 'id market =
  market_id :: 'id
  question :: jsval
  group :: jsval
  tags :: jsval
  slug :: jsval
  rest :: "(string \<times> jsval) list"

datatype category =
  Politics | Crypto | Sports | Business | Science | PopCulture | News | Other

text \<open>The string that \<^verbatim>\<open>CATEGORIES\<close> gives each category; preferences are keyed by it.\<close>

fun CATEGORIES :: "category \<Rightarrow> string" where
  "CATEGORIES Politics = ''Politics''"
| "CATEGORIES Crypto = ''Crypto''"
| "CATEGORIES Sports = ''Sports''"
| "CATEGORIES Business = ''Business''"
| "CATEGORIES Science = ''Science''"
| "CATEGORIES PopCulture = ''Pop Culture''"
| "CATEGORIES News = ''News''"
| "CATEGORIES Other = ''Other''"

definition all_categories :: "category list" where
  "all_categories =
     [Politics, Crypto, Sports, Business, Science, PopCulture, News, Other]"

section \<open>The classifier\<close>

text \<open>The text that \<^verbatim>\<open>detectCategory\<close> searches.\<close>

definition market_text :: "('id, 'z) market_scheme \<Rightarrow> string" where
  "market_text m =
     toLowerCase (toString (question m) @ '' '' @ toString (js_or (group m) (JStr []))
                  @ '' '' @ toString (js_or (tags m) (JArr [])))"

definition category_of_text :: "string \<Rightarrow> category" where
  "category_of_text text =
    (if js_includes text ''bitcoin'' \<or> js_includes text ''crypto'' \<or> js_includes text ''eth''
        \<or> js_includes text ''solana'' \<or> js_includes text ''coin'' \<or> js_includes text ''token''
     then Crypto
     else if js_includes text ''election'' \<or> js_includes text ''trump'' \<or> js_includes text ''biden''
        \<or> js_includes text ''senate'' \<or> js_includes text ''politics'' \<or> js_includes text ''vote''
     then Politics
     else if js_includes text ''nfl'' \<or> js_includes text ''nba'' \<or> js_includes text ''football''
        \<or> js_includes text ''soccer'' \<or> js_includes text ''sport'' \<or> js_includes text ''f1''
        \<or> js_includes text ''ufc''
     then Sports
     else if js_includes text ''stock'' \<or> js_includes text ''fed'' \<or> js_includes text ''rate''
        \<or> js_includes text ''recession'' \<or> js_includes text ''economy''
        \<or> js_includes text ''business'' \<or> js_includes text ''price''
     then Business
     else if js_includes text ''science'' \<or> js_includes text ''space'' \<or> js_includes text ''nasa''
        \<or> js_includes text ''apple'' \<or> js_includes text ''gpt'' \<or> js_includes text ''ai ''
        \<or> js_includes text ''tech''
     then Science
     else if js_includes text ''movie'' \<or> js_includes text ''music'' \<or> js_includes text ''song''
        \<or> js_includes text ''grammy'' \<or> js_includes text ''oscar''
        \<or> js_includes text ''celebrity'' \<or> js_includes text ''spotify''
     then PopCulture
     else if js_includes text ''war'' \<or> js_includes text ''weather'' \<or> js_includes text ''climate''
        \<or> js_includes text ''news'' \<or> js_includes text ''global''
     then News
     else Other)"

definition detectCategory :: "('id, 'z) market_scheme \<Rightarrow> category" where
  "detectCategory m = category_of_text (market_text m)"

text \<open>
  The classifier as the specification words it (section 4.1), for comparison with
  \<open>detectCategory\<close>: an ordered list of rules, each a set of keyword substrings (the
  keywords are those of the source), and the category of the first rule with a keyword
  in the text is returned, \<open>Other\<close> when there is none.
\<close>

fun rule_keywords :: "category \<Rightarrow> string list" where
  "rule_keywords Crypto = [''bitcoin'', ''crypto'', ''eth'', ''solana'', ''coin'', ''token'']"
| "rule_keywords Politics = [''election'', ''trump'', ''biden'', ''senate'', ''politics'', ''vote'']"
| "rule_keywords Sports = [''nfl'', ''nba'', ''football'', ''soccer'', ''sport'', ''f1'', ''ufc'']"
| "rule_keywords Business =
     [''stock'', ''fed'', ''rate'', ''recession'', ''economy'', ''business'', ''price'']"
| "rule_keywords Science = [''science'', ''space'', ''nasa'', ''apple'', ''gpt'', ''ai '', ''tech'']"
| "rule_keywords PopCulture =
     [''movie'', ''music'', ''song'', ''grammy'', ''oscar'', ''celebrity'', ''spotify'']"
| "rule_keywords News = [''war'', ''weather'', ''climate'', ''news'', ''global'']"
| "rule_keywords Other = []"

definition rule_order :: "category list" where
  "rule_order = [Crypto, Politics, Sports, Business, Science, PopCulture, News]"

definition rule_matches :: "string \<Rightarrow> category \<Rightarrow> bool" where
  "rule_matches text c = list_ex (js_includes text) (rule_keywords c)"

definition classify_spec :: "string \<Rightarrow> category" where
  "classify_spec text =
     (case find (rule_matches text) rule_order of Some c \<Rightarrow> c | None \<Rightarrow> Other)"

section \<open>Preferences\<close>

text \<open>
  A preference object is a plain JavaScript object whose own properties are booleans:
  the map gives the own properties. Reading a property that the object does not own
  falls through to \<^verbatim>\<open>Object.prototype\<close>, whose members are all truthy; every other
  missing property reads as \<open>undefined\<close>. \<open>prefs_get\<close> is the truthiness of
  \<^verbatim>\<open>prefs[key]\<close>, which is all that the program looks at.
\<close>

type_synonym prefs = "string \<rightharpoonup> bool"

definition Object_prototype :: "string list" where
  "Object_prototype =
     [''constructor'', ''__defineGetter__'', ''__defineSetter__'', ''hasOwnProperty'',
      ''__lookupGetter__'', ''__lookupSetter__'', ''isPrototypeOf'',
      ''propertyIsEnumerable'', ''toString'', ''valueOf'', ''__proto__'',
      ''toLocaleString'']"

definition prefs_get :: "prefs \<Rightarrow> string \<Rightarrow> bool" where
  "prefs_get p key =
     (case p key of Some b \<Rightarrow> b | None \<Rightarrow> key \<in> set Object_prototype)"

text \<open>
  \<^verbatim>\<open>prefs[key] = b\<close> with a boolean \<open>b\<close>: an own property is written, except that
  assigning a boolean to \<^verbatim>\<open>__proto__\<close> is ignored.
\<close>

definition prefs_set :: "prefs \<Rightarrow> string \<Rightarrow> bool \<Rightarrow> prefs" where
  "prefs_set p key b = (if key = ''__proto__'' then p else p(key \<mapsto> b))"

definition default_prefs :: prefs where
  "default_prefs =
     [CATEGORIES Politics \<mapsto> True, CATEGORIES Crypto \<mapsto> True,
      CATEGORIES Sports \<mapsto> True, CATEGORIES Business \<mapsto> True,
      CATEGORIES Science \<mapsto> True, CATEGORIES PopCulture \<mapsto> True,
      CATEGORIES News \<mapsto> True, CATEGORIES Other \<mapsto> True]"

text \<open>
  \<^verbatim>\<open>userPrefs\<close> is a \<^verbatim>\<open>Map\<close>, iterated in insertion order: a list of entries,
  where \<^verbatim>\<open>set\<close> overwrites the entry of a key in place and appends a new key.
\<close>

type_synonym chat_id = int

fun Map_has :: "('k \<times> 'v) list \<Rightarrow> 'k \<Rightarrow> bool" where
  "Map_has [] k = False"
| "Map_has ((k', v) # es) k = (k' = k \<or> Map_has es k)"

fun Map_set :: "('k \<times> 'v) list \<Rightarrow> 'k \<Rightarrow> 'v \<Rightarrow> ('k \<times> 'v) list" where
  "Map_set [] k v = [(k, v)]"
| "Map_set ((k', v') # es) k v = (if k' = k then (k, v) # es else (k', v') # Map_set es k v)"

section \<open>Program state and effects\<close>

text \<open>
  The three globals of the program, and \<open>sent\<close>, which is not a variable of the program:
  it counts the calls of \<^verbatim>\<open>bot.sendMessage\<close> that \<^verbatim>\<open>sendAlert\<close> has made so far. The
  transport is a function \<open>tr\<close> from that count to the outcome of the call (\<open>True\<close>: the
  promise resolves, \<open>False\<close>: it rejects), so that every pattern of delivery failures
  is some \<open>tr\<close>.
\<close>

record 'id state =
  seenMarkets :: "'id set"
  firstRun :: bool
  userPrefs :: "(chat_id \<times> prefs) list"
  sent :: nat

definition initial_state :: "'id state" where
  "initial_state = \<lparr> seenMarkets = {}, firstRun = True, userPrefs = [], sent = 0 \<rparr>"

text \<open>
  The variable parts of the alert text: the category (it selects the emoji), the
  question and the link.
\<close>

record message =
  msg_category :: category
  msg_question :: string
  msg_url :: string

text \<open>
  What a poll cycle does to the outside world, in order: the request to the feed, the
  console lines and the messages sent. The first console line of a cycle, which prints
  the time, is left out. \<open>NewMarketFound\<close> is the console line that precedes each call
  of \<^verbatim>\<open>sendAlert\<close>; it prints the question, and the model keeps the whole market with
  it. \<open>FailedToSend\<close> is the console line of the \<^verbatim>\<open>catch\<close> around one delivery.
\<close>

datatype 'id effect =
    HttpGet
  | ErrorFetching
  | Initialized nat
  | NewMarketFound "'id market"
  | SendMessage chat_id message
  | FailedToSend chat_id

text \<open>
  The outcome of \<^verbatim>\<open>axios.get\<close>: the promise rejects, or it resolves with
  \<^verbatim>\<open>response.data\<close> either falsy (\<open>None\<close>) or an array of market objects. A body that
  is truthy and not an array of objects is outside the model.
\<close>

datatype 'id response = Rejected | Resolved "'id market list option"

section \<open>Subscriber commands\<close>

definition getUserPrefs :: "chat_id \<Rightarrow> 'id state \<Rightarrow> prefs \<times> 'id state" where
  "getUserPrefs chatId s =
     (if \<not> Map_has (userPrefs s) chatId
      then (default_prefs, s\<lparr>userPrefs := Map_set (userPrefs s) chatId default_prefs\<rparr>)
      else (the (map_of (userPrefs s) chatId), s))"

text \<open>
  \<^verbatim>\<open>/start\<close> and \<^verbatim>\<open>/settings\<close> change the state only through \<^verbatim>\<open>getUserPrefs\<close>
  (the second one calls it in \<^verbatim>\<open>getSettingsKeyboard\<close>). The replies that the handlers
  send are not part of the model.
\<close>

definition onStart :: "chat_id \<Rightarrow> 'id state \<Rightarrow> 'id state" where
  "onStart chatId s = snd (getUserPrefs chatId s)"

definition onSettings :: "chat_id \<Rightarrow> 'id state \<Rightarrow> 'id state" where
  "onSettings chatId s = snd (getUserPrefs chatId s)"

text \<open>The \<^verbatim>\<open>callback_query\<close> handler, for the chat and the data of the query.\<close>

definition callback_query :: "chat_id \<Rightarrow> string \<Rightarrow> 'id state \<Rightarrow> 'id state" where
  "callback_query chatId data s =
     (if startsWith data ''toggle_'' then
        let category = replace data ''toggle_'' [];
            (prefs, s1) = getUserPrefs chatId s;
            prefs' = prefs_set prefs category (\<not> prefs_get prefs category)
        in s1\<lparr>userPrefs := Map_set (userPrefs s1) chatId prefs'\<rparr>
      else s)"

text \<open>Pressing the button of a topic sends the data \<^verbatim>\<open>toggle_\<close> followed by the topic.\<close>

definition toggle :: "chat_id \<Rightarrow> string \<Rightarrow> 'id state \<Rightarrow> 'id state" where
  "toggle chatId topic s = callback_query chatId (''toggle_'' @ topic) s"

section \<open>Alerting and the monitor loop\<close>

text \<open>The loop of \<^verbatim>\<open>sendAlert\<close> over the entries of \<^verbatim>\<open>userPrefs\<close>.\<close>

fun broadcast ::
  "(nat \<Rightarrow> bool) \<Rightarrow> category \<Rightarrow> message \<Rightarrow> (chat_id \<times> prefs) list \<Rightarrow> nat
     \<Rightarrow> 'id effect list \<times> nat" where
  "broadcast tr category msg [] n = ([], n)"
| "broadcast tr category msg ((chatId, prefs) # es) n =
     (if prefs_get prefs (CATEGORIES category) then
        let (effs, n') = broadcast tr category msg es (Suc n)
        in (SendMessage chatId msg # (if tr n then [] else [FailedToSend chatId]) @ effs, n')
      else broadcast tr category msg es n)"

definition sendAlert ::
  "(nat \<Rightarrow> bool) \<Rightarrow> 'id market \<Rightarrow> 'id state \<Rightarrow> 'id state \<times> 'id effect list" where
  "sendAlert tr market s =
     (let question = js_or (question market) (JStr ''Unknown Market'');
          slug = js_or (slug market) (JStr []);
          url = (if truthy slug then ''https://polymarket.com/event/'' @ toString slug
                 else ''https://polymarket.com'');
          category = detectCategory market;
          msg = \<lparr> msg_category = category, msg_question = toString question,
                  msg_url = url \<rparr>;
          (effs, n) = broadcast tr category msg (userPrefs s) (sent s)
      in (s\<lparr>sent := n\<rparr>, effs))"

definition fetchMarkets :: "'id response \<Rightarrow> 'id market list \<times> 'id effect list" where
  "fetchMarkets r =
     (case r of
        Resolved d \<Rightarrow> ((case d of Some ms \<Rightarrow> ms | None \<Rightarrow> []), [HttpGet])
      | Rejected \<Rightarrow> ([], [HttpGet, ErrorFetching]))"

text \<open>The \<^verbatim>\<open>for\<close> loop of \<^verbatim>\<open>monitorMarkets\<close>.\<close>

fun alertNew ::
  "(nat \<Rightarrow> bool) \<Rightarrow> 'id market list \<Rightarrow> 'id state \<Rightarrow> 'id state \<times> 'id effect list" where
  "alertNew tr [] s = (s, [])"
| "alertNew tr (market # ms) s =
     (if market_id market \<notin> seenMarkets s then
        let s1 = s\<lparr>seenMarkets := insert (market_id market) (seenMarkets s)\<rparr>;
            (s2, e1) = sendAlert tr market s1;
            (s3, e2) = alertNew tr ms s2
        in (s3, NewMarketFound market # e1 @ e2)
      else alertNew tr ms s)"

definition monitorMarkets ::
  "(nat \<Rightarrow> bool) \<Rightarrow> 'id response \<Rightarrow> 'id state \<Rightarrow> 'id state \<times> 'id effect list" where
  "monitorMarkets tr r s =
     (let (markets, e0) = fetchMarkets r in
      if firstRun s then
        let seen = fold (\<lambda>m. insert (market_id m)) markets (seenMarkets s)
        in (s\<lparr>seenMarkets := seen, firstRun := False\<rparr>, e0 @ [Initialized (card seen)])
      else
        let (s', e1) = alertNew tr markets s in (s', e0 @ e1))"

text \<open>
  The process as a whole: timer ticks, each with the outcome of its request, and
  subscriber actions. An event is handled to its end before the next one starts: poll
  cycles that overlap, and subscriber actions that arrive while a cycle waits for the
  feed or the transport, are outside the model.
\<close>

datatype 'id event =
    Tick "'id response"
  | Start chat_id
  | Settings chat_id
  | CallbackQuery chat_id string

fun handle ::
  "(nat \<Rightarrow> bool) \<Rightarrow> 'id event \<Rightarrow> 'id state \<Rightarrow> 'id state \<times> 'id effect list" where
  "handle tr (Tick r) s = monitorMarkets tr r s"
| "handle tr (Start chatId) s = (onStart chatId s, [])"
| "handle tr (Settings chatId) s = (onSettings chatId s, [])"
| "handle tr (CallbackQuery chatId data) s = (callback_query chatId data s, [])"

fun run ::
  "(nat \<Rightarrow> bool) \<Rightarrow> 'id event list \<Rightarrow> 'id state \<Rightarrow> 'id state \<times> 'id effect list" where
  "run tr [] s = (s, [])"
| "run tr (ev # evs) s =
     (let (s1, e1) = handle tr ev s; (s2, e2) = run tr evs s1 in (s2, e1 @ e2))"

text \<open>Projections of an effect list used in the statements below.\<close>

fun reported :: "'id effect list \<Rightarrow> 'id market list" where
  "reported [] = []"
| "reported (NewMarketFound m # es) = m # reported es"
| "reported (e # es) = reported es"

fun recipients :: "'id effect list \<Rightarrow> chat_id list" where
  "recipients [] = []"
| "recipients (SendMessage c msg # es) = c # recipients es"
| "recipients (e # es) = recipients es"

fun requests :: "'id effect list \<Rightarrow> nat" where
  "requests [] = 0"
| "requests (HttpGet # es) = Suc (requests es)"
| "requests (e # es) = requests es"

section \<open>Notions used in the statements\<close>

text \<open>
  The invariant of the preference store: the keys are pairwise different, and every record
  owns the eight category flags.
\<close>

definition wf_prefs :: "prefs \<Rightarrow> bool" where
  "wf_prefs p = list_all (\<lambda>c. p (CATEGORIES c) \<noteq> None) all_categories"

definition wf_store :: "(chat_id \<times> prefs) list \<Rightarrow> bool" where
  "wf_store es = (distinct (map fst es) \<and> list_all (\<lambda>(c, p). wf_prefs p) es)"

text \<open>
  The states that the process can be in: the initial one, and every state that handling
  one more event leads to, whatever the transport does.
\<close>

inductive reachable :: "'id state \<Rightarrow> bool" where
  reachable_init: "reachable initial_state"
| reachable_step: "reachable s \<Longrightarrow> reachable (fst (handle tr ev s))"

text \<open>
  The subscribers, in the order of \<^verbatim>\<open>userPrefs\<close>, whose record has the flag of the topic
  set to \<open>true\<close>.
\<close>

definition enabled_subscribers :: "(chat_id \<times> prefs) list \<Rightarrow> category \<Rightarrow> chat_id list" where
  "enabled_subscribers es T = map fst (filter (\<lambda>(c, p). p (CATEGORIES T) = Some True) es)"

text \<open>
  The markets of a fetched list that a steady cycle finds new: the identifier is neither
  in the set of seen markets nor carried by an earlier market of the list.
\<close>

fun fresh :: "'id set \<Rightarrow> 'id market list \<Rightarrow> 'id market list" where
  "fresh seen [] = []"
| "fresh seen (m # ms) =
     (if market_id m \<in> seen then fresh seen ms else m # fresh (insert (market_id m) seen) ms)"

text \<open>Two more projections of an effect list: the failed deliveries and the texts sent.\<close>

fun failures :: "'id effect list \<Rightarrow> chat_id list" where
  "failures [] = []"
| "failures (FailedToSend c # es) = c # failures es"
| "failures (e # es) = failures es"

fun messages :: "'id effect list \<Rightarrow> message list" where
  "messages [] = []"
| "messages (SendMessage c msg # es) = msg # messages es"
| "messages (e # es) = messages es"

section \<open>Example inputs\<close>

definition ex_market :: "nat \<Rightarrow> string \<Rightarrow> nat market" where
  "ex_market i q =
     \<lparr> market_id = i, question = JStr q, group = JUndefined, tags = JUndefined,
       slug = JUndefined, rest = [] \<rparr>"

definition ex_titled :: "nat market" where
  "ex_titled =
     \<lparr> market_id = 5, question = JUndefined, group = JNull, tags = JArr [],
       slug = JStr ''btc'', rest = [(''title'', JStr ''Will Bitcoin hit $100k?'')] \<rparr>"

definition ex_untitled :: "nat market" where
  "ex_untitled =
     \<lparr> market_id = 6, question = JUndefined, group = JNull, tags = JArr [],
       slug = JUndefined, rest = [] \<rparr>"

text \<open>
  Three subscribers, the second of which switches Business off, before the first poll
  cycle and after a first cycle that fetched one market.
\<close>

definition ex_commands :: "nat event list" where
  "ex_commands = [Start 7, Start 8, Start 9, CallbackQuery 8 ''toggle_Business'']"

definition ex_bootstrapping :: "nat state" where
  "ex_bootstrapping = fst (run (\<lambda>n. True) ex_commands initial_state)"

definition ex_steady :: "nat state" where
  "ex_steady =
     fst (run (\<lambda>n. True)
            (ex_commands @ [Tick (Resolved (Some [ex_market 1 ''Will Bitcoin hit $100k?'']))])
            initial_state)"

section \<open>Strings and the rule table\<close>

lemmas text_eval =
  market_text_def toLowerCase_def lower_char_def js_or_def rule_matches_def rule_order_def

lemma startsWith_iff: "startsWith s p \<longleftrightarrow> (\<exists>q. s = p @ q)"
  by (induction s p rule: startsWith.induct) auto

lemma js_includes_iff: "js_includes s k \<longleftrightarrow> (\<exists>p q. s = p @ k @ q)"
proof (induction s)
  case Nil
  then show ?case by auto
next
  case (Cons c cs)
  show ?case
  proof
    assume "js_includes (c # cs) k"
    then consider "startsWith (c # cs) k" | "js_includes cs k" by auto
    then show "\<exists>p q. c # cs = p @ k @ q"
    proof cases
      case 1
      then obtain q where "c # cs = k @ q" by (auto simp: startsWith_iff)
      then have "c # cs = [] @ k @ q" by simp
      then show ?thesis by blast
    next
      case 2
      then obtain p q where "cs = p @ k @ q" using Cons.IH by blast
      then have "c # cs = (c # p) @ k @ q" by simp
      then show ?thesis by blast
    qed
  next
    assume "\<exists>p q. c # cs = p @ k @ q"
    then obtain p q where pq: "c # cs = p @ k @ q" by blast
    show "js_includes (c # cs) k"
    proof (cases p)
      case Nil
      with pq have "startsWith (c # cs) k" by (auto simp: startsWith_iff)
      then show ?thesis by simp
    next
      case (Cons a p')
      with pq have "cs = p' @ k @ q" by simp
      then have "js_includes cs k" using Cons.IH by blast
      then show ?thesis by simp
    qed
  qed
qed

section \<open>The classifier: claims\<close>

lemma find_first:
  "c \<in> set xs \<Longrightarrow> P c \<Longrightarrow> \<forall>c' \<in> set (takeWhile (\<lambda>x. x \<noteq> c) xs). \<not> P c' \<Longrightarrow> find P xs = Some c"
  by (induction xs) (auto split: if_splits)

lemma find_none: "\<forall>c \<in> set xs. \<not> P c \<Longrightarrow> find P xs = None"
  by (induction xs) auto

lemma category_of_text_spec: "category_of_text t = classify_spec t"
  by (simp add: category_of_text_def classify_spec_def rule_order_def rule_matches_def)

lemma all_categories_complete: "c \<in> set all_categories"
  by (cases c) (simp_all add: all_categories_def)

lemma CATEGORIES_inj: "CATEGORIES c = CATEGORIES c' \<longleftrightarrow> c = c'"
  by (cases c; cases c'; simp)

text \<open>
  Claim C3. The rules are tried in the order Crypto, Politics, Sports, Business, Science,
  Pop Culture, News, and \<open>detectCategory\<close> returns the category of the first rule that
  has a keyword in the text, \<open>Other\<close> when no rule has one. In particular a text with a
  Crypto keyword and a Business keyword is classified as Crypto.
\<close>

theorem classifier_rule_precedence:
  "detectCategory m = classify_spec (market_text m)
   \<and> rule_order = [Crypto, Politics, Sports, Business, Science, PopCulture, News]
   \<and> (\<forall>c \<in> set rule_order.
         rule_matches (market_text m) c
         \<and> (\<forall>c' \<in> set (takeWhile (\<lambda>x. x \<noteq> c) rule_order). \<not> rule_matches (market_text m) c')
         \<longrightarrow> detectCategory m = c)
   \<and> ((\<forall>c \<in> set rule_order. \<not> rule_matches (market_text m) c) \<longrightarrow> detectCategory m = Other)
   \<and> (rule_matches (market_text m) Crypto \<and> rule_matches (market_text m) Business
        \<longrightarrow> detectCategory m = Crypto)"
proof -
  let ?t = "market_text m"
  have eq: "detectCategory m = classify_spec ?t"
    by (simp add: detectCategory_def category_of_text_spec)
  have first: "detectCategory m = c"
    if "c \<in> set rule_order" "rule_matches ?t c"
       "\<forall>c' \<in> set (takeWhile (\<lambda>x. x \<noteq> c) rule_order). \<not> rule_matches ?t c'" for c
    using find_first [OF that] by (simp add: eq classify_spec_def)
  have none: "detectCategory m = Other" if "\<forall>c \<in> set rule_order. \<not> rule_matches ?t c"
    using find_none [OF that] by (simp add: eq classify_spec_def)
  have crypto: "detectCategory m = Crypto" if "rule_matches ?t Crypto"
    using first [of Crypto] that by (simp add: rule_order_def)
  show ?thesis
    using eq first none crypto by (simp add: rule_order_def)
qed

theorem classifier_rule_precedence_witness:
  "rule_matches (market_text (ex_market 1 ''bitcoin price surge'')) Crypto
   \<and> rule_matches (market_text (ex_market 1 ''bitcoin price surge'')) Business
   \<and> detectCategory (ex_market 1 ''bitcoin price surge'') = Crypto
   \<and> Business \<in> set rule_order
   \<and> rule_matches (market_text (ex_market 2 ''Will the Fed cut rates?'')) Business
   \<and> list_all (\<lambda>c'. \<not> rule_matches (market_text (ex_market 2 ''Will the Fed cut rates?'')) c')
         (takeWhile (\<lambda>x. x \<noteq> Business) rule_order)
   \<and> detectCategory (ex_market 2 ''Will the Fed cut rates?'') = Business
   \<and> list_all (\<lambda>c. \<not> rule_matches (market_text (ex_market 3 ''Hello World'')) c) rule_order
   \<and> detectCategory (ex_market 3 ''Hello World'') = Other"
proof -
  let ?a = "ex_market 1 ''bitcoin price surge''"
  let ?b = "ex_market 2 ''Will the Fed cut rates?''"
  let ?c = "ex_market 3 ''Hello World''"
  have a: "rule_matches (market_text ?a) Crypto \<and> rule_matches (market_text ?a) Business"
    by (simp add: ex_market_def text_eval)
  have b1: "Business \<in> set rule_order"
    by (simp add: rule_order_def)
  have b2: "rule_matches (market_text ?b) Business"
    by (simp add: ex_market_def text_eval)
  have b3: "list_all (\<lambda>c'. \<not> rule_matches (market_text ?b) c')
              (takeWhile (\<lambda>x. x \<noteq> Business) rule_order)"
    by (simp add: ex_market_def text_eval)
  have c: "list_all (\<lambda>c. \<not> rule_matches (market_text ?c) c) rule_order"
    by (simp add: ex_market_def text_eval)
  have "detectCategory ?a = Crypto"
    using classifier_rule_precedence [of ?a] a by blast
  moreover have "detectCategory ?b = Business"
    using classifier_rule_precedence [of ?b] b1 b2 b3 unfolding list_all_iff by blast
  moreover have "detectCategory ?c = Other"
    using classifier_rule_precedence [of ?c] c unfolding list_all_iff by blast
  ultimately show ?thesis
    using a b1 b2 b3 c by blast
qed

text \<open>
  Claim C4. \<open>detectCategory\<close> returns, for every market, one of the eight categories,
  whose names are pairwise different; markets with the same text get the same category;
  and a market whose text contains no keyword of any rule gets \<open>Other\<close>.
\<close>

theorem classify_total_deterministic:
  fixes m :: "('a, 'b) market_scheme" and m' :: "('c, 'd) market_scheme"
  shows
  "detectCategory m \<in> set all_categories
   \<and> length all_categories = 8 \<and> distinct (map CATEGORIES all_categories)
   \<and> (\<exists>!c. c \<in> set all_categories \<and> CATEGORIES c = CATEGORIES (detectCategory m))
   \<and> (market_text m = market_text m' \<longrightarrow> detectCategory m = detectCategory m')
   \<and> ((\<forall>c \<in> set rule_order. \<forall>k \<in> set (rule_keywords c). \<not> js_includes (market_text m) k)
        \<longrightarrow> detectCategory m = Other)"
proof -
  have enum: "length all_categories = 8 \<and> distinct (map CATEGORIES all_categories)"
    by (simp add: all_categories_def)
  have one: "\<exists>!c. c \<in> set all_categories \<and> CATEGORIES c = CATEGORIES (detectCategory m)"
    by (auto simp: all_categories_complete CATEGORIES_inj)
  have det: "detectCategory m = detectCategory m'" if "market_text m = market_text m'"
    using that by (simp add: detectCategory_def)
  have other: "detectCategory m = Other"
    if "\<forall>c \<in> set rule_order. \<forall>k \<in> set (rule_keywords c). \<not> js_includes (market_text m) k"
    using that by (simp add: detectCategory_def category_of_text_def rule_order_def)
  show ?thesis
    using enum one det other all_categories_complete [of "detectCategory m"] by blast
qed

theorem classify_total_deterministic_witness:
  "market_text (ex_market 3 ''Hello World'') = market_text (ex_market 4 ''hello world'')
   \<and> detectCategory (ex_market 3 ''Hello World'') = detectCategory (ex_market 4 ''hello world'')
   \<and> list_all (\<lambda>c. list_all (\<lambda>k. \<not> js_includes (market_text (ex_market 3 ''Hello World'')) k)
                         (rule_keywords c)) rule_order
   \<and> detectCategory (ex_market 3 ''Hello World'') = Other"
proof -
  let ?a = "ex_market 3 ''Hello World''"
  let ?b = "ex_market 4 ''hello world''"
  have t: "market_text ?a = market_text ?b"
    by (simp add: ex_market_def text_eval)
  have n: "list_all (\<lambda>c. list_all (\<lambda>k. \<not> js_includes (market_text ?a) k) (rule_keywords c))
             rule_order"
    by (simp add: ex_market_def text_eval)
  have "detectCategory ?a = detectCategory ?b \<and> detectCategory ?a = Other"
    using classify_total_deterministic [of ?a ?b] t n unfolding list_all_iff by blast
  then show ?thesis
    using t n by blast
qed

text \<open>
  Claim C10. The category depends on \<open>question\<close>, \<open>group\<close> and \<open>tags\<close> only: two
  markets that agree on them get the same category, whatever their identifier, slug and
  other properties are. A market whose text is only in a \<open>title\<close> property is
  classified as the same market without the title.
\<close>

theorem classify_reads_question_group_tags_only:
  fixes m :: "('a, 'b) market_scheme" and m' :: "('c, 'd) market_scheme"
  shows
  "(question m = question m' \<and> group m = group m' \<and> tags m = tags m'
      \<longrightarrow> detectCategory m = detectCategory m')
   \<and> detectCategory (m\<lparr>market_id := i, slug := s, rest := r\<rparr>) = detectCategory m"
  by (simp add: detectCategory_def market_text_def)

theorem classify_reads_question_group_tags_only_witness:
  "question ex_titled = question ex_untitled \<and> group ex_titled = group ex_untitled
   \<and> tags ex_titled = tags ex_untitled
   \<and> rest ex_titled = [(''title'', JStr ''Will Bitcoin hit $100k?'')]
   \<and> rest ex_untitled = []
   \<and> detectCategory ex_titled = detectCategory ex_untitled
   \<and> detectCategory ex_untitled = Other"
proof -
  have f: "question ex_titled = question ex_untitled \<and> group ex_titled = group ex_untitled
           \<and> tags ex_titled = tags ex_untitled"
    by (simp add: ex_titled_def ex_untitled_def)
  have r: "rest ex_titled = [(''title'', JStr ''Will Bitcoin hit $100k?'')]
           \<and> rest ex_untitled = []"
    by (simp add: ex_titled_def ex_untitled_def)
  have o: "detectCategory ex_untitled = Other"
    by (simp add: ex_untitled_def detectCategory_def category_of_text_def text_eval)
  have "detectCategory ex_titled = detectCategory ex_untitled"
    using classify_reads_question_group_tags_only [of ex_titled ex_untitled] f by blast
  then show ?thesis
    using f r o by blast
qed

section \<open>Preferences: lemmas\<close>

lemma Map_has_iff: "Map_has es k \<longleftrightarrow> k \<in> fst ` set es"
  by (induction es) auto

lemma Map_has_map_of: "Map_has es k \<longleftrightarrow> map_of es k \<noteq> None"
  by (induction es) auto

lemma map_of_Map_set: "map_of (Map_set es k v) = (map_of es)(k \<mapsto> v)"
  by (induction es) (auto simp: fun_eq_iff)

lemma keys_Map_set:
  "map fst (Map_set es k v) = (if Map_has es k then map fst es else map fst es @ [k])"
  by (induction es) auto

lemma set_Map_set: "set (Map_set es k v) \<subseteq> insert (k, v) (set es)"
  by (induction es) (auto split: if_splits)

lemma Map_set_same: "map_of es k = Some v \<Longrightarrow> Map_set es k v = es"
  by (induction es) (auto split: if_splits)

lemma Map_set_twice: "Map_set (Map_set es k v) k v' = Map_set es k v'"
  by (induction es) auto

lemma distinct_Map_set: "distinct (map fst es) \<Longrightarrow> distinct (map fst (Map_set es k v))"
  by (simp add: keys_Map_set Map_has_iff)

lemma CATEGORIES_not_proto: "CATEGORIES c \<noteq> ''__proto__''"
  by (cases c) simp_all

lemma CATEGORIES_not_inherited: "CATEGORIES c \<notin> set Object_prototype"
  by (cases c) (simp_all add: Object_prototype_def)

lemma prefs_get_category: "prefs_get p (CATEGORIES c) \<longleftrightarrow> p (CATEGORIES c) = Some True"
  by (auto simp: prefs_get_def CATEGORIES_not_inherited split: option.splits)

lemma default_prefs_category: "default_prefs (CATEGORIES c) = Some True"
  by (cases c) (simp_all add: default_prefs_def)

lemma wf_prefs_default: "wf_prefs default_prefs"
  by (simp add: wf_prefs_def list_all_iff default_prefs_category)

lemma wf_prefs_iff: "wf_prefs p \<longleftrightarrow> (\<forall>c. p (CATEGORIES c) \<noteq> None)"
  unfolding wf_prefs_def list_all_iff using all_categories_complete by auto

lemma wf_prefs_set: "wf_prefs p \<Longrightarrow> wf_prefs (prefs_set p k b)"
  by (simp add: wf_prefs_iff prefs_set_def)

lemma startsWith_append: "startsWith (p @ s) p"
  by (induction p) auto

lemma replace_prefix: "replace (p @ s) p [] = s"
proof (cases p)
  case Nil
  then show ?thesis by (cases s) simp_all
next
  case (Cons a p')
  then show ?thesis using startsWith_append [of p' s] by simp
qed

lemma getUserPrefs_fst:
  "map_of (userPrefs (snd (getUserPrefs c s))) c = Some (fst (getUserPrefs c s))"
  by (auto simp: getUserPrefs_def map_of_Map_set Map_has_map_of)

lemma getUserPrefs_has: "Map_has (userPrefs (snd (getUserPrefs c s))) c"
  using getUserPrefs_fst [of c s] by (simp add: Map_has_map_of)

lemma getUserPrefs_known: "Map_has (userPrefs s) c \<Longrightarrow> snd (getUserPrefs c s) = s"
  by (simp add: getUserPrefs_def)

lemma getUserPrefs_idem: "getUserPrefs c (snd (getUserPrefs c s)) = getUserPrefs c s"
  using getUserPrefs_has [of c s] getUserPrefs_fst [of c s]
  by (auto simp: getUserPrefs_def [of c "snd (getUserPrefs c s)"] prod_eq_iff)

lemma getUserPrefs_other:
  "c' \<noteq> c \<Longrightarrow> map_of (userPrefs (snd (getUserPrefs c s))) c' = map_of (userPrefs s) c'"
  by (simp add: getUserPrefs_def map_of_Map_set)

lemma getUserPrefs_frame:
  "seenMarkets (snd (getUserPrefs c s)) = seenMarkets s
   \<and> firstRun (snd (getUserPrefs c s)) = firstRun s \<and> sent (snd (getUserPrefs c s)) = sent s"
  by (simp add: getUserPrefs_def)

lemma toggle_eq:
  "toggle c k s =
     (snd (getUserPrefs c s))
       \<lparr>userPrefs :=
          Map_set (userPrefs (snd (getUserPrefs c s))) c
            (prefs_set (fst (getUserPrefs c s)) k (\<not> prefs_get (fst (getUserPrefs c s)) k))\<rparr>"
  by (simp add: toggle_def callback_query_def startsWith_append replace_prefix
      split_beta Let_def)

lemma toggle_record:
  "map_of (userPrefs (toggle c k s)) c
     = Some (prefs_set (fst (getUserPrefs c s)) k (\<not> prefs_get (fst (getUserPrefs c s)) k))"
  by (simp add: toggle_eq map_of_Map_set)

lemma toggle_other:
  "c' \<noteq> c \<Longrightarrow> map_of (userPrefs (toggle c k s)) c' = map_of (userPrefs s) c'"
  by (simp add: toggle_eq map_of_Map_set getUserPrefs_other)

lemma toggle_getUserPrefs:
  "getUserPrefs c (toggle c k s) =
     (prefs_set (fst (getUserPrefs c s)) k (\<not> prefs_get (fst (getUserPrefs c s)) k),
      toggle c k s)"
  using toggle_record [of c k s]
  by (auto simp: getUserPrefs_def [of c "toggle c k s"] Map_has_map_of)

lemma toggle_twice_category:
  assumes "wf_prefs (fst (getUserPrefs c s))"
  shows "toggle c (CATEGORIES T) (toggle c (CATEGORIES T) s) = snd (getUserPrefs c s)"
proof -
  let ?p = "fst (getUserPrefs c s)" and ?s1 = "snd (getUserPrefs c s)"
  let ?k = "CATEGORIES T"
  obtain b where b: "?p ?k = Some b"
    using assms by (auto simp: wf_prefs_iff)
  let ?p1 = "prefs_set ?p ?k (\<not> prefs_get ?p ?k)"
  have p1: "?p1 = ?p(?k \<mapsto> \<not> b)"
    using b by (simp add: prefs_set_def prefs_get_def CATEGORIES_not_proto)
  have p2: "prefs_set ?p1 ?k (\<not> prefs_get ?p1 ?k) = ?p"
    using b by (simp add: p1 prefs_set_def prefs_get_def CATEGORIES_not_proto map_upd_triv)
  have "toggle c ?k (toggle c ?k s) =
          (toggle c ?k s)\<lparr>userPrefs := Map_set (userPrefs (toggle c ?k s)) c ?p\<rparr>"
    by (simp add: toggle_eq [of c ?k "toggle c ?k s"] toggle_getUserPrefs p2)
  also have "\<dots> = ?s1\<lparr>userPrefs := Map_set (userPrefs ?s1) c ?p\<rparr>"
    by (simp add: toggle_eq [of c ?k s] Map_set_twice)
  also have "\<dots> = ?s1"
    by (simp add: Map_set_same [OF getUserPrefs_fst])
  finally show ?thesis .
qed

section \<open>The monitor loop: lemmas\<close>

lemma fresh_ids: "market_id ` set (fresh seen ms) = market_id ` set ms - seen"
  by (induction ms arbitrary: seen) auto

lemma fresh_distinct: "distinct (map market_id (fresh seen ms))"
proof (induction ms arbitrary: seen)
  case Nil
  then show ?case by simp
next
  case (Cons m ms)
  have "market_id m \<notin> market_id ` set (fresh (insert (market_id m) seen) ms)"
    by (simp add: fresh_ids)
  with Cons show ?case by simp
qed

lemma fresh_all:
  "distinct (map market_id ms) \<Longrightarrow> market_id ` set ms \<inter> seen = {} \<Longrightarrow> fresh seen ms = ms"
  by (induction ms arbitrary: seen) auto

lemma fresh_none: "market_id ` set ms \<subseteq> seen \<Longrightarrow> fresh seen ms = []"
  by (induction ms arbitrary: seen) auto

lemma broadcast_recipients:
  "recipients (fst (broadcast tr T msg es n)) = enabled_subscribers es T"
  by (induction es arbitrary: n)
     (auto simp: enabled_subscribers_def prefs_get_category split_beta)

lemma broadcast_count:
  "snd (broadcast tr T msg es n) = n + length (enabled_subscribers es T)"
  by (induction es arbitrary: n)
     (auto simp: enabled_subscribers_def prefs_get_category split_beta)

lemma broadcast_quiet:
  "reported (fst (broadcast tr T msg es n)) = [] \<and> requests (fst (broadcast tr T msg es n)) = 0"
  by (induction es arbitrary: n) (auto simp: split_beta)

lemma sendAlert_state:
  "fst (sendAlert tr m s) =
     s\<lparr>sent := sent s + length (enabled_subscribers (userPrefs s) (detectCategory m))\<rparr>"
  by (simp add: sendAlert_def Let_def split_beta broadcast_count)

lemma sendAlert_recipients:
  "recipients (snd (sendAlert tr m s)) = enabled_subscribers (userPrefs s) (detectCategory m)"
  by (simp add: sendAlert_def Let_def split_beta broadcast_recipients)

lemma sendAlert_quiet:
  "reported (snd (sendAlert tr m s)) = [] \<and> requests (snd (sendAlert tr m s)) = 0"
  by (simp add: sendAlert_def Let_def split_beta broadcast_quiet)

lemma reported_append: "reported (xs @ ys) = reported xs @ reported ys"
  by (induction xs rule: reported.induct) auto

lemma recipients_append: "recipients (xs @ ys) = recipients xs @ recipients ys"
  by (induction xs rule: recipients.induct) auto

lemma requests_append: "requests (xs @ ys) = requests xs + requests ys"
  by (induction xs rule: requests.induct) auto

lemma alertNew_frame:
  "userPrefs (fst (alertNew tr ms s)) = userPrefs s
   \<and> firstRun (fst (alertNew tr ms s)) = firstRun s
   \<and> seenMarkets (fst (alertNew tr ms s)) = seenMarkets s \<union> market_id ` set ms"
  by (induction ms arbitrary: s) (auto simp: split_beta Let_def sendAlert_state)

lemma alertNew_reported:
  "reported (snd (alertNew tr ms s)) = fresh (seenMarkets s) ms"
  by (induction ms arbitrary: s)
     (auto simp: split_beta Let_def sendAlert_state reported_append sendAlert_quiet)

lemma alertNew_recipients:
  "recipients (snd (alertNew tr ms s)) =
     concat (map (\<lambda>m. enabled_subscribers (userPrefs s) (detectCategory m))
                 (fresh (seenMarkets s) ms))"
  by (induction ms arbitrary: s)
     (auto simp: split_beta Let_def sendAlert_state recipients_append sendAlert_recipients)

lemma alertNew_requests: "requests (snd (alertNew tr ms s)) = 0"
  by (induction ms arbitrary: s)
     (auto simp: split_beta Let_def requests_append sendAlert_quiet)

lemma alertNew_seen:
  "market_id ` set ms \<subseteq> seenMarkets s \<Longrightarrow> alertNew tr ms s = (s, [])"
  by (induction ms arbitrary: s) auto

lemma alertNew_skip:
  "market_id m \<in> seenMarkets s \<Longrightarrow> alertNew tr (ms @ m # ms') s = alertNew tr (ms @ ms') s"
  by (induction ms arbitrary: s) (auto simp: split_beta Let_def sendAlert_state)

lemma fold_insert_ids:
  "fold (\<lambda>m. insert (market_id m)) ms seen = seen \<union> market_id ` set ms"
  by (induction ms arbitrary: seen) auto

section \<open>Poll cycles and runs\<close>

lemma monitorMarkets_first:
  "firstRun s \<Longrightarrow>
     monitorMarkets tr r s =
       (s\<lparr>seenMarkets := seenMarkets s \<union> market_id ` set (fst (fetchMarkets r)),
          firstRun := False\<rparr>,
        snd (fetchMarkets r)
        @ [Initialized (card (seenMarkets s \<union> market_id ` set (fst (fetchMarkets r))))])"
  by (simp add: monitorMarkets_def split_beta Let_def fold_insert_ids)

lemma monitorMarkets_steady:
  "\<not> firstRun s \<Longrightarrow>
     monitorMarkets tr r s =
       (fst (alertNew tr (fst (fetchMarkets r)) s),
        snd (fetchMarkets r) @ snd (alertNew tr (fst (fetchMarkets r)) s))"
  by (simp add: monitorMarkets_def split_beta)

lemma fetchMarkets_quiet:
  "reported (snd (fetchMarkets r)) = [] \<and> recipients (snd (fetchMarkets r)) = []
   \<and> requests (snd (fetchMarkets r)) = 1"
  by (simp add: fetchMarkets_def split: response.splits)

lemma monitorMarkets_reported:
  "reported (snd (monitorMarkets tr r s)) =
     (if firstRun s then [] else fresh (seenMarkets s) (fst (fetchMarkets r)))"
  by (cases "firstRun s")
     (simp_all add: monitorMarkets_first monitorMarkets_steady reported_append
        fetchMarkets_quiet alertNew_reported)

lemma monitorMarkets_recipients:
  "recipients (snd (monitorMarkets tr r s)) =
     concat (map (\<lambda>m. enabled_subscribers (userPrefs s) (detectCategory m))
                 (reported (snd (monitorMarkets tr r s))))"
  by (cases "firstRun s")
     (simp_all add: monitorMarkets_first monitorMarkets_steady reported_append
        recipients_append fetchMarkets_quiet alertNew_reported alertNew_recipients)

lemma monitorMarkets_seen:
  "seenMarkets (fst (monitorMarkets tr r s)) =
     seenMarkets s \<union> market_id ` set (fst (fetchMarkets r))"
  by (cases "firstRun s") (simp_all add: monitorMarkets_first monitorMarkets_steady alertNew_frame)

lemma monitorMarkets_frame:
  "userPrefs (fst (monitorMarkets tr r s)) = userPrefs s \<and> \<not> firstRun (fst (monitorMarkets tr r s))"
  by (cases "firstRun s") (simp_all add: monitorMarkets_first monitorMarkets_steady alertNew_frame)

lemma monitorMarkets_requests: "requests (snd (monitorMarkets tr r s)) = 1"
  by (cases "firstRun s")
     (simp_all add: monitorMarkets_first monitorMarkets_steady requests_append
        fetchMarkets_quiet alertNew_requests)

lemma callback_query_frame:
  "seenMarkets (callback_query c d s) = seenMarkets s
   \<and> firstRun (callback_query c d s) = firstRun s"
  by (simp add: callback_query_def split_beta Let_def getUserPrefs_frame)

lemma handle_seen:
  "seenMarkets s \<subseteq> seenMarkets (fst (handle tr ev s))"
  by (cases ev)
     (auto simp: monitorMarkets_seen onStart_def onSettings_def getUserPrefs_frame
        callback_query_frame)

lemma handle_reported:
  "distinct (map market_id (reported (snd (handle tr ev s))))
   \<and> market_id ` set (reported (snd (handle tr ev s))) \<inter> seenMarkets s = {}
   \<and> market_id ` set (reported (snd (handle tr ev s))) \<subseteq> seenMarkets (fst (handle tr ev s))"
proof (cases ev)
  case (Tick r)
  then show ?thesis
    by (auto simp: monitorMarkets_reported monitorMarkets_seen fresh_distinct fresh_ids)
qed simp_all

lemma run_seen: "seenMarkets s \<subseteq> seenMarkets (fst (run tr evs s))"
proof (induction evs arbitrary: s)
  case Nil
  then show ?case by simp
next
  case (Cons ev evs)
  have "seenMarkets s \<subseteq> seenMarkets (fst (handle tr ev s))"
    by (rule handle_seen)
  also have "\<dots> \<subseteq> seenMarkets (fst (run tr evs (fst (handle tr ev s))))"
    by (rule Cons.IH)
  finally show ?case by (simp add: split_beta)
qed

lemma run_reported:
  "distinct (map market_id (reported (snd (run tr evs s))))
   \<and> market_id ` set (reported (snd (run tr evs s))) \<inter> seenMarkets s = {}
   \<and> market_id ` set (reported (snd (run tr evs s))) \<subseteq> seenMarkets (fst (run tr evs s))"
proof (induction evs arbitrary: s)
  case Nil
  then show ?case by simp
next
  case (Cons ev evs)
  let ?s1 = "fst (handle tr ev s)"
  let ?r1 = "reported (snd (handle tr ev s))"
  let ?r2 = "reported (snd (run tr evs ?s1))"
  have eq: "reported (snd (run tr (ev # evs) s)) = ?r1 @ ?r2"
    and st: "fst (run tr (ev # evs) s) = fst (run tr evs ?s1)"
    by (simp_all add: split_beta reported_append)
  note h = handle_reported [of tr ev s]
  note ih = Cons.IH [of ?s1]
  have mono1: "seenMarkets s \<subseteq> seenMarkets ?s1" by (rule handle_seen)
  have mono2: "seenMarkets ?s1 \<subseteq> seenMarkets (fst (run tr evs ?s1))" by (rule run_seen)
  have d: "distinct (map market_id (?r1 @ ?r2))"
    using h ih by auto
  have i: "market_id ` set (?r1 @ ?r2) \<inter> seenMarkets s = {}"
    using h ih mono1 by auto
  have u: "market_id ` set (?r1 @ ?r2) \<subseteq> seenMarkets (fst (run tr evs ?s1))"
    using h ih mono2 by auto
  show ?case
    unfolding eq st using d i u by blast
qed

lemma wf_store_Map_set: "wf_store es \<Longrightarrow> wf_prefs p \<Longrightarrow> wf_store (Map_set es c p)"
  using set_Map_set [of es c p]
  by (auto simp: wf_store_def distinct_Map_set list_all_iff)

lemma wf_store_record: "wf_store es \<Longrightarrow> map_of es c = Some p \<Longrightarrow> wf_prefs p"
  by (auto simp: wf_store_def list_all_iff dest: map_of_SomeD)

lemma getUserPrefs_wf:
  assumes "wf_store (userPrefs s)"
  shows "wf_store (userPrefs (snd (getUserPrefs c s))) \<and> wf_prefs (fst (getUserPrefs c s))"
proof -
  have 1: "wf_store (userPrefs (snd (getUserPrefs c s)))"
    using assms by (simp add: getUserPrefs_def wf_store_Map_set wf_prefs_default)
  from wf_store_record [OF 1 getUserPrefs_fst] 1 show ?thesis by simp
qed

lemma toggle_callback: "startsWith d ''toggle_'' \<Longrightarrow> callback_query c d s = toggle c (replace d ''toggle_'' []) s"
  by (simp add: toggle_eq callback_query_def split_beta Let_def)

lemma callback_query_wf:
  assumes "wf_store (userPrefs s)"
  shows "wf_store (userPrefs (callback_query c d s))"
proof (cases "startsWith d ''toggle_''")
  case True
  then show ?thesis
    using getUserPrefs_wf [OF assms, of c]
    by (simp add: toggle_callback toggle_eq wf_store_Map_set wf_prefs_set)
next
  case False
  then show ?thesis using assms by (simp add: callback_query_def)
qed

lemma handle_wf: "wf_store (userPrefs s) \<Longrightarrow> wf_store (userPrefs (fst (handle tr ev s)))"
  by (cases ev)
     (simp_all add: monitorMarkets_frame onStart_def onSettings_def getUserPrefs_wf
        callback_query_wf)

lemma reachable_wf: "reachable s \<Longrightarrow> wf_store (userPrefs s)"
proof (induction rule: reachable.induct)
  case reachable_init
  show ?case by (simp add: initial_state_def wf_store_def)
next
  case (reachable_step s tr ev)
  then show ?case by (simp add: handle_wf)
qed

lemma broadcast_failures:
  "failures (fst (broadcast tr T msg es n)) =
     map fst (filter (\<lambda>(c, i). \<not> tr i)
                (zip (enabled_subscribers es T)
                     [n ..< n + length (enabled_subscribers es T)]))"
proof (induction es arbitrary: n)
  case Nil
  then show ?case by (simp add: enabled_subscribers_def)
next
  case (Cons e es)
  obtain c p where e: "e = (c, p)" by (cases e)
  show ?case
  proof (cases "p (CATEGORIES T) = Some True")
    case True
    then have en: "enabled_subscribers (e # es) T = c # enabled_subscribers es T"
      by (simp add: e enabled_subscribers_def)
    have up: "[n ..< n + length (c # enabled_subscribers es T)]
               = n # [Suc n ..< Suc n + length (enabled_subscribers es T)]"
      by (simp add: upt_rec [of n] del: upt_Suc)
    show ?thesis
      unfolding en up using True Cons.IH [of "Suc n"]
      by (simp add: e prefs_get_category split_beta)
  next
    case False
    then have en: "enabled_subscribers (e # es) T = enabled_subscribers es T"
      by (simp add: e enabled_subscribers_def)
    show ?thesis
      unfolding en using False Cons.IH [of n]
      by (simp add: e prefs_get_category)
  qed
qed

lemma broadcast_messages:
  "messages (fst (broadcast tr T msg es n)) = replicate (length (enabled_subscribers es T)) msg"
  by (induction es arbitrary: n)
     (auto simp: enabled_subscribers_def prefs_get_category split_beta)

lemma enabled_subscribers_distinct:
  "distinct (map fst es) \<Longrightarrow> distinct (enabled_subscribers es T)"
  by (simp add: enabled_subscribers_def distinct_map_filter)

lemma enabled_subscribers_mem:
  "(c, p) \<in> set es \<Longrightarrow> p (CATEGORIES T) = Some True \<Longrightarrow> c \<in> set (enabled_subscribers es T)"
  by (force simp: enabled_subscribers_def)

section \<open>Reachable states and stray entries\<close>

lemma reachable_run: "reachable s \<Longrightarrow> reachable (fst (run tr evs s))"
proof (induction evs arbitrary: s)
  case Nil
  then show ?case by simp
next
  case (Cons ev evs)
  from Cons.prems have "reachable (fst (handle tr ev s))"
    by (rule reachable_step)
  then have "reachable (fst (run tr evs (fst (handle tr ev s))))"
    by (rule Cons.IH)
  then show ?case by (simp add: split_beta)
qed

lemma agree_broadcast:
  assumes "list_all2 (\<lambda>(c, p) (c', p'). c = c' \<and> (\<forall>T. p (CATEGORIES T) = p' (CATEGORIES T))) es es'"
  shows "broadcast tr T msg es n = broadcast tr T msg es' n"
  using assms
proof (induction es es' arbitrary: n rule: list_all2_induct)
  case Nil
  then show ?case by simp
next
  case (Cons e es e' es')
  then show ?case
    by (cases e; cases e') (simp add: prefs_get_category)
qed

lemma agree_Map_set:
  assumes "map_of es c = Some p" "\<forall>T. p' (CATEGORIES T) = p (CATEGORIES T)"
  shows "list_all2 (\<lambda>(c, p) (c', p'). c = c' \<and> (\<forall>T. p (CATEGORIES T) = p' (CATEGORIES T)))
           (Map_set es c p') es"
  using assms(1)
proof (induction es)
  case Nil
  then show ?case by simp
next
  case (Cons e es)
  obtain k q where e: "e = (k, q)" by (cases e)
  have refl: "list_all2 (\<lambda>(c, p) (c', p'). c = c' \<and> (\<forall>T. p (CATEGORIES T) = p' (CATEGORIES T)))
                es es"
    by (simp add: list_all2_same split_beta)
  show ?case
  proof (cases "k = c")
    case True
    with Cons.prems e have "q = p" by simp
    with True e assms(2) refl show ?thesis by simp
  next
    case False
    with Cons e show ?thesis by simp
  qed
qed

lemma prefs_set_stray:
  "k \<notin> set (map CATEGORIES all_categories) \<Longrightarrow> prefs_set p k b (CATEGORIES T) = p (CATEGORIES T)"
  using all_categories_complete [of T] by (auto simp: prefs_set_def)

section \<open>Example states\<close>

lemmas state_eval =
  ex_commands_def initial_state_def onStart_def onSettings_def getUserPrefs_def
  callback_query_def prefs_set_def prefs_get_def Object_prototype_def
  monitorMarkets_def fetchMarkets_def sendAlert_def Let_def split_beta

lemma ex_bootstrapping_eq:
  "ex_bootstrapping =
     \<lparr> seenMarkets = {}, firstRun = True,
       userPrefs = [(7, default_prefs), (8, default_prefs(''Business'' \<mapsto> False)),
                    (9, default_prefs)],
       sent = 0 \<rparr>"
  by (simp add: ex_bootstrapping_def state_eval default_prefs_def)

lemma ex_steady_eq:
  "ex_steady =
     \<lparr> seenMarkets = {1}, firstRun = False,
       userPrefs = [(7, default_prefs), (8, default_prefs(''Business'' \<mapsto> False)),
                    (9, default_prefs)],
       sent = 0 \<rparr>"
  by (simp add: ex_steady_def state_eval default_prefs_def ex_market_def)

section \<open>The state machine: claims\<close>

text \<open>
  Claim C1. In the first poll cycle (\<open>firstRun\<close> holds), whatever list of markets is
  fetched, no market is reported as new, no message is sent, and after the cycle the
  identifier of every fetched market is in \<open>seenMarkets\<close>.
\<close>

theorem baseline_suppression:
  assumes "firstRun s"
  shows "reported (snd (monitorMarkets tr (Resolved (Some ms)) s)) = []
    \<and> recipients (snd (monitorMarkets tr (Resolved (Some ms)) s)) = []
    \<and> (\<forall>m \<in> set ms. market_id m \<in> seenMarkets (fst (monitorMarkets tr (Resolved (Some ms)) s)))
    \<and> seenMarkets (fst (monitorMarkets tr (Resolved (Some ms)) s))
          = seenMarkets s \<union> market_id ` set ms
    \<and> snd (monitorMarkets tr (Resolved (Some ms)) s)
          = [HttpGet, Initialized (card (seenMarkets s \<union> market_id ` set ms))]
    \<and> \<not> firstRun (fst (monitorMarkets tr (Resolved (Some ms)) s))
    \<and> sent (fst (monitorMarkets tr (Resolved (Some ms)) s)) = sent s"
  using assms by (simp add: monitorMarkets_first fetchMarkets_def)

theorem baseline_suppression_witness:
  "firstRun ex_bootstrapping
   \<and> reported (snd (monitorMarkets (\<lambda>n. True)
        (Resolved (Some [ex_market 1 ''Will Bitcoin hit $100k?'',
                         ex_market 2 ''Will the Fed cut rates?''])) ex_bootstrapping)) = []
   \<and> recipients (snd (monitorMarkets (\<lambda>n. True)
        (Resolved (Some [ex_market 1 ''Will Bitcoin hit $100k?'',
                         ex_market 2 ''Will the Fed cut rates?''])) ex_bootstrapping)) = []
   \<and> seenMarkets (fst (monitorMarkets (\<lambda>n. True)
        (Resolved (Some [ex_market 1 ''Will Bitcoin hit $100k?'',
                         ex_market 2 ''Will the Fed cut rates?''])) ex_bootstrapping)) = {1, 2}"
proof -
  let ?ms = "[ex_market 1 ''Will Bitcoin hit $100k?'', ex_market 2 ''Will the Fed cut rates?'']"
  have h: "firstRun ex_bootstrapping"
    by (simp add: ex_bootstrapping_eq)
  have seen: "seenMarkets ex_bootstrapping \<union> market_id ` set ?ms = {1, 2}"
    by (auto simp: ex_bootstrapping_eq ex_market_def)
  from baseline_suppression [OF h, of "\<lambda>n. True" ?ms]
  have "reported (snd (monitorMarkets (\<lambda>n. True) (Resolved (Some ?ms)) ex_bootstrapping)) = []
    \<and> recipients (snd (monitorMarkets (\<lambda>n. True) (Resolved (Some ?ms)) ex_bootstrapping)) = []
    \<and> seenMarkets (fst (monitorMarkets (\<lambda>n. True) (Resolved (Some ?ms)) ex_bootstrapping))
        = seenMarkets ex_bootstrapping \<union> market_id ` set ?ms"
    by blast
  with h seen show ?thesis by simp
qed

text \<open>
  Claim C2. A market whose identifier is already in \<open>seenMarkets\<close> is not reported by a
  poll cycle that fetches it, and the cycle is the one that the list without it gives; a
  cycle that fetches only seen markets does nothing but the request. Messages go only to
  the subscribers of the reported markets. Over any sequence of events, the reported
  identifiers are pairwise different, were not seen before, and are seen afterwards.
\<close>

theorem at_most_once_alerting:
  "(market_id m \<in> seenMarkets s \<longrightarrow>
      market_id m \<notin> market_id ` set (reported (snd (monitorMarkets tr r s)))
      \<and> monitorMarkets tr (Resolved (Some (ms @ m # ms'))) s
          = monitorMarkets tr (Resolved (Some (ms @ ms'))) s)
   \<and> (market_id ` set ms \<subseteq> seenMarkets s \<and> \<not> firstRun s \<longrightarrow>
        monitorMarkets tr (Resolved (Some ms)) s = (s, [HttpGet]))
   \<and> recipients (snd (monitorMarkets tr r s))
        = concat (map (\<lambda>m. enabled_subscribers (userPrefs s) (detectCategory m))
                      (reported (snd (monitorMarkets tr r s))))
   \<and> distinct (map market_id (reported (snd (run tr evs s))))
   \<and> market_id ` set (reported (snd (run tr evs s))) \<inter> seenMarkets s = {}
   \<and> market_id ` set (reported (snd (run tr evs s))) \<subseteq> seenMarkets (fst (run tr evs s))
   \<and> seenMarkets s \<subseteq> seenMarkets (fst (run tr evs s))"
proof -
  have a: "market_id m \<notin> market_id ` set (reported (snd (monitorMarkets tr r s)))"
    if "market_id m \<in> seenMarkets s"
    using that by (simp add: monitorMarkets_reported fresh_ids)
  have b: "monitorMarkets tr (Resolved (Some (ms @ m # ms'))) s
            = monitorMarkets tr (Resolved (Some (ms @ ms'))) s"
    if "market_id m \<in> seenMarkets s"
  proof (cases "firstRun s")
    case True
    have "seenMarkets s \<union> market_id ` set (ms @ m # ms')
            = seenMarkets s \<union> market_id ` set (ms @ ms')"
      using that by auto
    then show ?thesis
      using True by (simp add: monitorMarkets_first fetchMarkets_def)
  next
    case False
    then show ?thesis
      using that by (simp add: monitorMarkets_steady fetchMarkets_def alertNew_skip)
  qed
  have c: "monitorMarkets tr (Resolved (Some ms)) s = (s, [HttpGet])"
    if "market_id ` set ms \<subseteq> seenMarkets s" "\<not> firstRun s"
    using that by (simp add: monitorMarkets_steady fetchMarkets_def alertNew_seen)
  show ?thesis
    using a b c monitorMarkets_recipients [of tr r s] run_reported [of tr evs s]
      run_seen [of s tr evs]
    by blast
qed

theorem at_most_once_alerting_witness:
  "market_id (ex_market 1 ''Will Bitcoin hit $100k?'') \<in> seenMarkets ex_steady
   \<and> market_id (ex_market 1 ''Will Bitcoin hit $100k?'')
       \<notin> market_id ` set (reported (snd (monitorMarkets (\<lambda>n. True)
            (Resolved (Some [ex_market 1 ''Will Bitcoin hit $100k?'',
                             ex_market 2 ''Will the Fed cut rates?''])) ex_steady)))
   \<and> monitorMarkets (\<lambda>n. True)
        (Resolved (Some ([] @ ex_market 1 ''Will Bitcoin hit $100k?''
                          # [ex_market 2 ''Will the Fed cut rates?'']))) ex_steady
       = monitorMarkets (\<lambda>n. True)
          (Resolved (Some ([] @ [ex_market 2 ''Will the Fed cut rates?'']))) ex_steady
   \<and> market_id ` set [ex_market 1 ''Will Bitcoin hit $100k?''] \<subseteq> seenMarkets ex_steady
   \<and> \<not> firstRun ex_steady
   \<and> monitorMarkets (\<lambda>n. True) (Resolved (Some [ex_market 1 ''Will Bitcoin hit $100k?'']))
        ex_steady = (ex_steady, [HttpGet])"
proof -
  let ?m1 = "ex_market 1 ''Will Bitcoin hit $100k?''"
  let ?m2 = "ex_market 2 ''Will the Fed cut rates?''"
  have h1: "market_id ?m1 \<in> seenMarkets ex_steady"
    by (simp add: ex_steady_eq ex_market_def)
  have h2: "market_id ` set [?m1] \<subseteq> seenMarkets ex_steady \<and> \<not> firstRun ex_steady"
    by (simp add: ex_steady_eq ex_market_def)
  note a = at_most_once_alerting [where m = ?m1 and s = ex_steady and tr = "\<lambda>n. True"
      and r = "Resolved (Some [?m1, ?m2])" and ms = "[]" and ms' = "[?m2]"]
  note b = at_most_once_alerting [where s = ex_steady and tr = "\<lambda>n. True" and ms = "[?m1]"]
  have c1: "market_id ?m1 \<notin> market_id ` set (reported (snd (monitorMarkets (\<lambda>n. True)
            (Resolved (Some [?m1, ?m2])) ex_steady)))
     \<and> monitorMarkets (\<lambda>n. True) (Resolved (Some ([] @ ?m1 # [?m2]))) ex_steady
       = monitorMarkets (\<lambda>n. True) (Resolved (Some ([] @ [?m2]))) ex_steady"
    using a h1 by blast
  have c2: "monitorMarkets (\<lambda>n. True) (Resolved (Some [?m1])) ex_steady = (ex_steady, [HttpGet])"
    using b h2 by blast
  show ?thesis
    using h1 h2 c1 c2 by blast
qed

text \<open>
  Claim C5. For every transport and every state, \<open>sendAlert\<close> attempts delivery to
  exactly the subscribers whose record has the flag of the market's category set, in the
  order of \<open>userPrefs\<close>; the list does not depend on which deliveries fail, an enabled
  subscriber is attempted whatever happens to the others, no subscriber is attempted
  twice, each failure is logged once, every message carries the category that
  \<open>detectCategory\<close> gives, and \<open>seenMarkets\<close>, \<open>firstRun\<close> and \<open>userPrefs\<close> are
  left as they were.
\<close>

theorem routing_exact_and_isolated:
  "recipients (snd (sendAlert tr m s)) = enabled_subscribers (userPrefs s) (detectCategory m)
   \<and> recipients (snd (sendAlert tr' m s)) = recipients (snd (sendAlert tr m s))
   \<and> ((c, p) \<in> set (userPrefs s) \<and> p (CATEGORIES (detectCategory m)) = Some True
        \<longrightarrow> c \<in> set (recipients (snd (sendAlert tr m s))))
   \<and> (distinct (map fst (userPrefs s)) \<longrightarrow> distinct (recipients (snd (sendAlert tr m s))))
   \<and> (reachable s \<longrightarrow> distinct (recipients (snd (sendAlert tr m s))))
   \<and> failures (snd (sendAlert tr m s))
        = map fst (filter (\<lambda>(c, i). \<not> tr i)
            (zip (recipients (snd (sendAlert tr m s)))
                 [sent s ..< sent s + length (recipients (snd (sendAlert tr m s)))]))
   \<and> (\<forall>msg \<in> set (messages (snd (sendAlert tr m s))). msg_category msg = detectCategory m)
   \<and> reported (snd (sendAlert tr m s)) = []
   \<and> fst (sendAlert tr m s) = s\<lparr>sent := sent s + length (recipients (snd (sendAlert tr m s)))\<rparr>
   \<and> seenMarkets (fst (sendAlert tr m s)) = seenMarkets s
   \<and> firstRun (fst (sendAlert tr m s)) = firstRun s
   \<and> userPrefs (fst (sendAlert tr m s)) = userPrefs s"
proof -
  let ?T = "detectCategory m"
  have r: "recipients (snd (sendAlert tr m s)) = enabled_subscribers (userPrefs s) ?T"
    for tr :: "nat \<Rightarrow> bool"
    by (rule sendAlert_recipients)
  have mem: "c \<in> set (enabled_subscribers (userPrefs s) ?T)"
    if "(c, p) \<in> set (userPrefs s)" "p (CATEGORIES ?T) = Some True"
    using that by (rule enabled_subscribers_mem)
  have d: "distinct (enabled_subscribers (userPrefs s) ?T)" if "distinct (map fst (userPrefs s))"
    using that by (rule enabled_subscribers_distinct)
  have d': "distinct (enabled_subscribers (userPrefs s) ?T)" if "reachable s"
    using reachable_wf [OF that] by (simp add: wf_store_def enabled_subscribers_distinct)
  have f: "failures (snd (sendAlert tr m s))
        = map fst (filter (\<lambda>(c, i). \<not> tr i)
            (zip (enabled_subscribers (userPrefs s) ?T)
                 [sent s ..< sent s + length (enabled_subscribers (userPrefs s) ?T)]))"
    by (simp add: sendAlert_def Let_def split_beta broadcast_failures)
  have g: "\<forall>msg \<in> set (messages (snd (sendAlert tr m s))). msg_category msg = ?T"
    by (simp add: sendAlert_def Let_def split_beta broadcast_messages)
  have q: "reported (snd (sendAlert tr m s)) = []"
    by (simp add: sendAlert_quiet)
  have st: "fst (sendAlert tr m s)
             = s\<lparr>sent := sent s + length (enabled_subscribers (userPrefs s) ?T)\<rparr>"
    by (rule sendAlert_state)
  show ?thesis
    unfolding r st using mem d d' f g q by simp
qed

theorem routing_exact_and_isolated_witness:
  "(9, default_prefs) \<in> set (userPrefs ex_steady)
   \<and> default_prefs (CATEGORIES (detectCategory (ex_market 2 ''Will the Fed cut rates?'')))
       = Some True
   \<and> 9 \<in> set (recipients (snd (sendAlert (\<lambda>n. n \<noteq> 0)
                  (ex_market 2 ''Will the Fed cut rates?'') ex_steady)))
   \<and> distinct (map fst (userPrefs ex_steady))
   \<and> reachable ex_steady
   \<and> distinct (recipients (snd (sendAlert (\<lambda>n. n \<noteq> 0)
                  (ex_market 2 ''Will the Fed cut rates?'') ex_steady)))
   \<and> recipients (snd (sendAlert (\<lambda>n. n \<noteq> 0)
                  (ex_market 2 ''Will the Fed cut rates?'') ex_steady)) = [7, 9]
   \<and> failures (snd (sendAlert (\<lambda>n. n \<noteq> 0)
                  (ex_market 2 ''Will the Fed cut rates?'') ex_steady)) = [7]"
proof -
  let ?m = "ex_market 2 ''Will the Fed cut rates?''"
  let ?tr = "\<lambda>n::nat. n \<noteq> 0"
  have cat: "detectCategory ?m = Business"
    by (simp add: ex_market_def detectCategory_def category_of_text_def text_eval)
  have h1: "(9, default_prefs) \<in> set (userPrefs ex_steady)"
    by (simp add: ex_steady_eq)
  have h2: "default_prefs (CATEGORIES (detectCategory ?m)) = Some True"
    by (simp add: cat default_prefs_def)
  have h3: "distinct (map fst (userPrefs ex_steady))"
    by (simp add: ex_steady_eq)
  have h4: "reachable ex_steady"
    unfolding ex_steady_def by (rule reachable_run [OF reachable_init])
  have en: "enabled_subscribers (userPrefs ex_steady) (detectCategory ?m) = [7, 9]"
    by (simp add: cat ex_steady_eq enabled_subscribers_def default_prefs_def)
  have st: "sent ex_steady = 0"
    by (simp add: ex_steady_eq)
  have up: "[0 ..< 2] = [0, Suc 0]"
    by (simp add: numeral_2_eq_2)
  note t = routing_exact_and_isolated [where tr = ?tr and m = ?m and s = ex_steady
      and c = 9 and p = default_prefs]
  have r: "recipients (snd (sendAlert ?tr ?m ex_steady)) = [7, 9]"
    using t en by simp
  have f: "failures (snd (sendAlert ?tr ?m ex_steady)) = [7]"
    using t unfolding r st by (simp add: up)
  have m: "9 \<in> set (recipients (snd (sendAlert ?tr ?m ex_steady)))"
    using t h1 h2 by blast
  have d: "distinct (recipients (snd (sendAlert ?tr ?m ex_steady)))"
    using t h4 by blast
  show ?thesis
    using h1 h2 h3 h4 r f m d by blast
qed

text \<open>
  Claim C6. When the request to the feed is rejected, \<open>fetchMarkets\<close> gives the empty
  list, and the cycle makes one request, reports no market, sends nothing and leaves
  \<open>seenMarkets\<close> as it was; it returns a state from which the following events are
  handled.
\<close>

theorem fetch_failure_recovery:
  "fst (fetchMarkets Rejected) = []
   \<and> monitorMarkets tr Rejected s
       = (s\<lparr>firstRun := False\<rparr>,
          [HttpGet, ErrorFetching]
          @ (if firstRun s then [Initialized (card (seenMarkets s))] else []))
   \<and> reported (snd (monitorMarkets tr Rejected s)) = []
   \<and> recipients (snd (monitorMarkets tr Rejected s)) = []
   \<and> requests (snd (monitorMarkets tr Rejected s)) = 1
   \<and> seenMarkets (fst (monitorMarkets tr Rejected s)) = seenMarkets s
   \<and> userPrefs (fst (monitorMarkets tr Rejected s)) = userPrefs s
   \<and> fst (run tr (Tick Rejected # evs) s) = fst (run tr evs (s\<lparr>firstRun := False\<rparr>))"
proof -
  have f: "fetchMarkets Rejected = ([], [HttpGet, ErrorFetching])"
    by (simp add: fetchMarkets_def)
  have m: "monitorMarkets tr Rejected s
       = (s\<lparr>firstRun := False\<rparr>,
          [HttpGet, ErrorFetching]
          @ (if firstRun s then [Initialized (card (seenMarkets s))] else []))"
    by (cases "firstRun s") (simp_all add: monitorMarkets_first monitorMarkets_steady f)
  show ?thesis
    by (simp add: m f split_beta)
qed

text \<open>
  Claim C7. In every reachable state, toggling a topic of the enumeration twice for a
  subscriber gives back the state in which the subscriber's record is the one it was
  before (the unchanged state when the record existed), a single toggle flips the flag,
  and the record created on a first interaction has all eight topics set to \<open>true\<close>.
\<close>

theorem toggle_twice_restores_and_default_all_enabled:
  assumes "reachable s"
  shows "toggle c (CATEGORIES T) (toggle c (CATEGORIES T) s) = snd (getUserPrefs c s)
   \<and> (Map_has (userPrefs s) c \<longrightarrow> toggle c (CATEGORIES T) (toggle c (CATEGORIES T) s) = s)
   \<and> fst (getUserPrefs c (toggle c (CATEGORIES T) (toggle c (CATEGORIES T) s)))
        = fst (getUserPrefs c s)
   \<and> prefs_get (fst (getUserPrefs c (toggle c (CATEGORIES T) s))) (CATEGORIES T)
        = (\<not> prefs_get (fst (getUserPrefs c s)) (CATEGORIES T))
   \<and> (\<not> Map_has (userPrefs s) c \<longrightarrow>
        fst (getUserPrefs c s) = default_prefs
        \<and> map_of (userPrefs (snd (getUserPrefs c s))) c = Some default_prefs)
   \<and> default_prefs (CATEGORIES T') = Some True
   \<and> dom default_prefs = set (map CATEGORIES all_categories)"
proof -
  let ?k = "CATEGORIES T"
  have wf: "wf_prefs (fst (getUserPrefs c s))"
    using getUserPrefs_wf [OF reachable_wf [OF assms]] by simp
  have twice: "toggle c ?k (toggle c ?k s) = snd (getUserPrefs c s)"
    using wf by (rule toggle_twice_category)
  have known: "toggle c ?k (toggle c ?k s) = s" if "Map_has (userPrefs s) c"
    using that by (simp add: twice getUserPrefs_known)
  have rec: "fst (getUserPrefs c (toggle c ?k (toggle c ?k s))) = fst (getUserPrefs c s)"
    by (simp add: twice getUserPrefs_idem)
  have flip: "prefs_get (fst (getUserPrefs c (toggle c ?k s))) ?k
        = (\<not> prefs_get (fst (getUserPrefs c s)) ?k)"
    by (simp add: toggle_getUserPrefs prefs_get_def prefs_set_def CATEGORIES_not_proto)
  have new: "fst (getUserPrefs c s) = default_prefs
        \<and> map_of (userPrefs (snd (getUserPrefs c s))) c = Some default_prefs"
    if "\<not> Map_has (userPrefs s) c"
    using that by (simp add: getUserPrefs_def map_of_Map_set)
  have dom: "dom default_prefs = set (map CATEGORIES all_categories)"
    by (auto simp: default_prefs_def all_categories_def)
  show ?thesis
    using twice known rec flip new default_prefs_category [of T'] dom by blast
qed

theorem toggle_twice_restores_and_default_all_enabled_witness:
  "reachable ex_steady
   \<and> Map_has (userPrefs ex_steady) 8
   \<and> toggle 8 (CATEGORIES Business) (toggle 8 (CATEGORIES Business) ex_steady) = ex_steady
   \<and> prefs_get (fst (getUserPrefs 8 ex_steady)) (CATEGORIES Business) = False
   \<and> prefs_get (fst (getUserPrefs 8 (toggle 8 (CATEGORIES Business) ex_steady)))
        (CATEGORIES Business) = True
   \<and> \<not> Map_has (userPrefs ex_steady) 5
   \<and> fst (getUserPrefs 5 ex_steady) = default_prefs"
proof -
  have h1: "reachable ex_steady"
    unfolding ex_steady_def by (rule reachable_run [OF reachable_init])
  have h2: "Map_has (userPrefs ex_steady) 8"
    by (simp add: ex_steady_eq)
  have h3: "\<not> Map_has (userPrefs ex_steady) 5"
    by (simp add: ex_steady_eq)
  have b: "prefs_get (fst (getUserPrefs 8 ex_steady)) (CATEGORIES Business) = False"
    by (simp add: ex_steady_eq getUserPrefs_def prefs_get_def)
  note t8 = toggle_twice_restores_and_default_all_enabled [OF h1, where c = 8 and T = Business]
  note t5 = toggle_twice_restores_and_default_all_enabled [OF h1, where c = 5]
  have c1: "toggle 8 (CATEGORIES Business) (toggle 8 (CATEGORIES Business) ex_steady) = ex_steady"
    using t8 h2 by blast
  have c2: "prefs_get (fst (getUserPrefs 8 (toggle 8 (CATEGORIES Business) ex_steady)))
        (CATEGORIES Business) = True"
    using t8 b by blast
  have c3: "fst (getUserPrefs 5 ex_steady) = default_prefs"
    using t5 h3 by blast
  show ?thesis
    using h1 h2 h3 b c1 c2 c3 by blast
qed

text \<open>
  Claim C8. A toggle with a string that is none of the eight topic names leaves the
  eight topic flags of the subscriber's record, the records of the other subscribers and
  the order of the subscribers as they were, and \<open>sendAlert\<close> behaves as before the
  toggle: the entry that the toggle may create is not read.
\<close>

theorem toggle_unrecognized_keeps_topic_flags:
  assumes "k \<notin> set (map CATEGORIES all_categories)"
  shows "map_of (userPrefs (toggle c k s)) c
        = Some (prefs_set (fst (getUserPrefs c s)) k (\<not> prefs_get (fst (getUserPrefs c s)) k))
   \<and> prefs_set (fst (getUserPrefs c s)) k (\<not> prefs_get (fst (getUserPrefs c s)) k) (CATEGORIES T)
        = fst (getUserPrefs c s) (CATEGORIES T)
   \<and> fst (getUserPrefs c (toggle c k s)) (CATEGORIES T) = fst (getUserPrefs c s) (CATEGORIES T)
   \<and> (c' \<noteq> c \<longrightarrow> map_of (userPrefs (toggle c k s)) c' = map_of (userPrefs s) c')
   \<and> map fst (userPrefs (toggle c k s)) = map fst (userPrefs (snd (getUserPrefs c s)))
   \<and> snd (sendAlert tr m (toggle c k s)) = snd (sendAlert tr m (snd (getUserPrefs c s)))
   \<and> seenMarkets (toggle c k s) = seenMarkets s
   \<and> firstRun (toggle c k s) = firstRun s"
proof -
  let ?p = "fst (getUserPrefs c s)" and ?s1 = "snd (getUserPrefs c s)"
  let ?p' = "prefs_set ?p k (\<not> prefs_get ?p k)"
  have flags: "?p' (CATEGORIES T) = ?p (CATEGORIES T)" for T
    using assms by (rule prefs_set_stray)
  have other: "map_of (userPrefs (toggle c k s)) c' = map_of (userPrefs s) c'" if "c' \<noteq> c"
    using that by (rule toggle_other)
  have keys: "map fst (userPrefs (toggle c k s)) = map fst (userPrefs ?s1)"
    by (simp add: toggle_eq keys_Map_set getUserPrefs_has)
  have agree: "list_all2 (\<lambda>(c, p) (c', p'). c = c' \<and> (\<forall>T. p (CATEGORIES T) = p' (CATEGORIES T)))
                 (userPrefs (toggle c k s)) (userPrefs ?s1)"
    using agree_Map_set [OF getUserPrefs_fst, of ?p' c s] flags
    by (simp add: toggle_eq)
  have sent: "sent (toggle c k s) = sent ?s1"
    by (simp add: toggle_eq)
  have alert: "snd (sendAlert tr m (toggle c k s)) = snd (sendAlert tr m ?s1)"
    by (simp add: sendAlert_def Let_def split_beta sent agree_broadcast [OF agree])
  have frame: "seenMarkets (toggle c k s) = seenMarkets s \<and> firstRun (toggle c k s) = firstRun s"
    by (simp add: toggle_eq getUserPrefs_frame)
  show ?thesis
    using flags other keys alert frame by (simp add: toggle_record toggle_getUserPrefs)
qed

theorem toggle_unrecognized_keeps_topic_flags_witness:
  "''zzz'' \<notin> set (map CATEGORIES all_categories)
   \<and> fst (getUserPrefs 8 ex_steady) (CATEGORIES Business) = Some False
   \<and> fst (getUserPrefs 8 (toggle 8 ''zzz'' ex_steady)) (CATEGORIES Business) = Some False
   \<and> fst (getUserPrefs 8 (toggle 8 ''zzz'' ex_steady)) (CATEGORIES News) = Some True
   \<and> (7 :: chat_id) \<noteq> 8
   \<and> map_of (userPrefs (toggle 8 ''zzz'' ex_steady)) 7 = map_of (userPrefs ex_steady) 7"
proof -
  have h: "''zzz'' \<notin> set (map CATEGORIES all_categories)"
    by (simp add: all_categories_def)
  have b: "fst (getUserPrefs 8 ex_steady) (CATEGORIES Business) = Some False"
    by (simp add: ex_steady_eq getUserPrefs_def)
  have n: "fst (getUserPrefs 8 ex_steady) (CATEGORIES News) = Some True"
    by (simp add: ex_steady_eq getUserPrefs_def default_prefs_def)
  have d: "(7 :: chat_id) \<noteq> 8"
    by simp
  note tb = toggle_unrecognized_keeps_topic_flags [OF h, where c = 8 and s = ex_steady
      and T = Business and c' = 7]
  note tn = toggle_unrecognized_keeps_topic_flags [OF h, where c = 8 and s = ex_steady
      and T = News]
  have c1: "fst (getUserPrefs 8 (toggle 8 ''zzz'' ex_steady)) (CATEGORIES Business) = Some False"
    using tb b by metis
  have c2: "fst (getUserPrefs 8 (toggle 8 ''zzz'' ex_steady)) (CATEGORIES News) = Some True"
    using tn n by metis
  have c3: "map_of (userPrefs (toggle 8 ''zzz'' ex_steady)) 7 = map_of (userPrefs ex_steady) 7"
    using tb d by blast
  show ?thesis
    using h b d c1 c2 c3 by blast
qed

text \<open>
  Claim C9. A first cycle whose fetch gives the empty list (a rejected request among the
  cases) ends with \<open>firstRun\<close> false and \<open>seenMarkets\<close> empty, having reported nothing.
  In any state with that flag and that set, the next cycle that fetches a list of markets
  reports the identifier of every one of them; when the identifiers of the list are
  pairwise different it reports the whole list, in order, and attempts delivery to the
  enabled subscribers of each market.
\<close>

theorem failed_first_fetch_empty_baseline:
  assumes "firstRun s" and "seenMarkets s = {}" and "fst (fetchMarkets r) = []"
  shows "\<not> firstRun (fst (monitorMarkets tr r s))
   \<and> seenMarkets (fst (monitorMarkets tr r s)) = {}
   \<and> reported (snd (monitorMarkets tr r s)) = []
   \<and> recipients (snd (monitorMarkets tr r s)) = []
   \<and> (firstRun s2 = firstRun (fst (monitorMarkets tr r s))
        \<and> seenMarkets s2 = seenMarkets (fst (monitorMarkets tr r s)) \<longrightarrow>
        (\<forall>m \<in> set ms. market_id m
           \<in> market_id ` set (reported (snd (monitorMarkets tr' (Resolved (Some ms)) s2))))
        \<and> reported (snd (monitorMarkets tr' (Resolved (Some ms)) s2)) = fresh {} ms
        \<and> (distinct (map market_id ms) \<longrightarrow>
             reported (snd (monitorMarkets tr' (Resolved (Some ms)) s2)) = ms
             \<and> recipients (snd (monitorMarkets tr' (Resolved (Some ms)) s2))
                 = concat (map (\<lambda>m. enabled_subscribers (userPrefs s2) (detectCategory m)) ms)))"
proof -
  let ?s1 = "fst (monitorMarkets tr r s)"
  let ?c2 = "monitorMarkets tr' (Resolved (Some ms)) s2"
  have s1: "?s1 = s\<lparr>firstRun := False\<rparr>"
    using assms by (simp add: monitorMarkets_first)
  have r1: "reported (snd (monitorMarkets tr r s)) = []"
    using assms by (simp add: monitorMarkets_reported)
  have q1: "recipients (snd (monitorMarkets tr r s)) = []"
    using monitorMarkets_recipients [of tr r s] by (simp add: r1)
  have next_cycle:
    "(\<forall>m \<in> set ms. market_id m \<in> market_id ` set (reported (snd ?c2)))
     \<and> reported (snd ?c2) = fresh {} ms
     \<and> (distinct (map market_id ms) \<longrightarrow>
          reported (snd ?c2) = ms
          \<and> recipients (snd ?c2)
              = concat (map (\<lambda>m. enabled_subscribers (userPrefs s2) (detectCategory m)) ms))"
    if "firstRun s2 = firstRun ?s1" "seenMarkets s2 = seenMarkets ?s1"
  proof -
    from that assms(2) have s2: "\<not> firstRun s2" "seenMarkets s2 = {}"
      by (simp_all add: s1)
    have r2: "reported (snd ?c2) = fresh {} ms"
      using s2 by (simp add: monitorMarkets_reported fetchMarkets_def)
    have ids: "market_id ` set (fresh {} ms) = market_id ` set ms"
      by (simp add: fresh_ids)
    have all: "fresh {} ms = ms" if "distinct (map market_id ms)"
      using that by (simp add: fresh_all)
    have rc: "recipients (snd ?c2)
          = concat (map (\<lambda>m. enabled_subscribers (userPrefs s2) (detectCategory m))
                        (fresh {} ms))"
      using monitorMarkets_recipients [of tr' "Resolved (Some ms)" s2]
      unfolding r2 by simp
    show ?thesis
      unfolding r2 rc using ids all by auto
  qed
  have st: "\<not> firstRun ?s1 \<and> seenMarkets ?s1 = {}"
    using assms(2) by (simp add: s1)
  show ?thesis
    using st r1 q1 next_cycle by blast
qed

theorem failed_first_fetch_empty_baseline_witness:
  "firstRun (initial_state :: nat state)
   \<and> seenMarkets (initial_state :: nat state) = {}
   \<and> fst (fetchMarkets (Rejected :: nat response)) = []
   \<and> \<not> firstRun (fst (monitorMarkets (\<lambda>n. True) Rejected (initial_state :: nat state)))
   \<and> seenMarkets (fst (monitorMarkets (\<lambda>n. True) Rejected (initial_state :: nat state))) = {}
   \<and> \<not> firstRun (onStart 7 (fst (monitorMarkets (\<lambda>n. True) Rejected
                                      (initial_state :: nat state))))
   \<and> seenMarkets (onStart 7 (fst (monitorMarkets (\<lambda>n. True) Rejected
                                      (initial_state :: nat state)))) = {}
   \<and> distinct (map market_id [ex_market 1 ''Will Bitcoin hit $100k?'',
                                ex_market 2 ''Will the Fed cut rates?''])
   \<and> reported (snd (monitorMarkets (\<lambda>n. False)
         (Resolved (Some [ex_market 1 ''Will Bitcoin hit $100k?'',
                          ex_market 2 ''Will the Fed cut rates?'']))
         (onStart 7 (fst (monitorMarkets (\<lambda>n. True) Rejected initial_state)))))
       = [ex_market 1 ''Will Bitcoin hit $100k?'', ex_market 2 ''Will the Fed cut rates?'']"
proof -
  let ?s0 = "initial_state :: nat state"
  let ?s1 = "fst (monitorMarkets (\<lambda>n. True) Rejected ?s0)"
  let ?s2 = "onStart 7 ?s1"
  let ?ms = "[ex_market 1 ''Will Bitcoin hit $100k?'', ex_market 2 ''Will the Fed cut rates?'']"
  have h1: "firstRun ?s0" and h2: "seenMarkets ?s0 = {}"
    by (simp_all add: initial_state_def)
  have h3: "fst (fetchMarkets (Rejected :: nat response)) = []"
    by (simp add: fetchMarkets_def)
  have h4: "firstRun ?s2 = firstRun ?s1" and h5: "seenMarkets ?s2 = seenMarkets ?s1"
    by (simp_all add: onStart_def getUserPrefs_frame)
  have h6: "distinct (map market_id ?ms)"
    by (simp add: ex_market_def)
  note t = failed_first_fetch_empty_baseline [OF h1 h2 h3,
      where tr = "\<lambda>n. True" and tr' = "\<lambda>n. False" and ?s2.0 = ?s2 and ms = ?ms]
  have c1: "\<not> firstRun ?s1" and c2: "seenMarkets ?s1 = {}"
    using t by blast+
  have c3: "\<not> firstRun ?s2" and c4: "seenMarkets ?s2 = {}"
    using h4 h5 c1 c2 by simp_all
  have c5: "reported (snd (monitorMarkets (\<lambda>n. False) (Resolved (Some ?ms)) ?s2)) = ?ms"
    using t h4 h5 h6 by blast
  show ?thesis
    by (intro conjI) (fact h1 h2 h3 h6 c1 c2 c3 c4 c5)+
qed

end
